theory Spec2Isabelle
  imports Main "HOL-Library.Word"
begin

section \<open>Tarmac tracer records: \<^verbatim>\<open>arch/arm/tracers/tarmac_record.hh\<close>\<close>

text \<open>
  A shallow embedding of \<^verbatim>\<open>TarmacTracerRecord\<close>. The header defines the entry
  structures, \<^verbatim>\<open>genRegister\<close> and \<^verbatim>\<open>mergeCCEntry\<close> in full; the constructors,
  \<^verbatim>\<open>update\<close>, the \<^verbatim>\<open>add*Entry\<close> builders, \<^verbatim>\<open>print\<close>, \<^verbatim>\<open>flushQueues\<close> and
  \<^verbatim>\<open>dump\<close> are only declared there. Every definition below says which of the two it
  is: a translation of the header's code, or a model of the specification's words for a
  body the header does not contain.
\<close>

subsection \<open>Registers\<close>

text \<open>
  Modelled from the spec: the register class enumeration is declared in
  \<^verbatim>\<open>cpu/reg_class.hh\<close>, which is not among the sources. The header names
  \<^verbatim>\<open>CCRegClass\<close> and \<^verbatim>\<open>MiscRegClass\<close> and one update function per class; the six
  classes are those of section 3 of the specification (Misc, CondCode, Float, Integer,
  Vector, Predicate).
\<close>

datatype RegClass =
  MiscRegClass | CCRegClass | FloatRegClass | IntRegClass | VecRegClass | VecPredRegClass

text \<open>
  \<^verbatim>\<open>RegIndex\<close> is an integer type declared outside the sources. The code only copies
  and compares indices, so they are natural numbers here.
\<close>

type_synonym RegIndex = nat

text \<open>
  \<^verbatim>\<open>RegId\<close>: a register class and an index within the class, as built by
  \<^verbatim>\<open>RegId reg(MiscRegClass, ArmISA::MISCREG_CPSR)\<close>.
\<close>

record RegId =
  classValue :: RegClass
  regIndex :: RegIndex

text \<open>
  The constants of \<^verbatim>\<open>arch/arm/regs/misc.hh\<close> the header uses. The file is not among
  the sources, so the index of the status register is a parameter of the model.
\<close>

record ArmISA =
  MISCREG_CPSR :: RegIndex

text \<open>
  Modelled from the spec: \<^verbatim>\<open>TarmacContext\<close> is only forward declared. Section 6 of
  the specification lists what is read from it per instruction: the program counter, the
  secure-mode flag, the instruction-set mode (whether it is the compact one, and its
  label) and the operating mode label, the destination registers, the value of
  a register on demand through an accessor per class, and the memory accesses (direction,
  address, size, data).
\<close>

record TarmacContext =
  ctxPc :: "64 word"
  ctxSecure :: bool
  ctxCompact :: bool
  ctxISetState :: string
  ctxOpMode :: string
  readMiscReg :: "RegIndex \<Rightarrow> 64 word"
  readCCReg :: "RegIndex \<Rightarrow> 64 word"
  readFloatReg :: "RegIndex \<Rightarrow> 64 word"
  readIntReg :: "RegIndex \<Rightarrow> 64 word"
  ctxDestRegs :: "RegId list"
  ctxMemAccesses :: "(bool \<times> 64 word \<times> 8 word \<times> 64 word) list"

subsection \<open>Register entries\<close>

text \<open>
  \<^verbatim>\<open>struct TraceRegEntry\<close>: the four public members of the header and the resolved
  value of the base \<^verbatim>\<open>RegEntry\<close> (section 3 of the specification); the value is
  \<open>None\<close> while it is unset.
\<close>

record TraceRegEntry =
  regValid :: bool
  regClass :: RegClass
  regRel :: RegIndex
  regName :: string
  regValue :: "64 word option"

text \<open>
  Modelled from the spec: the constructor \<^verbatim>\<open>TraceRegEntry(tarmCtx, reg)\<close> is declared
  only. Section 3: the validity flag is initially false; section 4.1: class and index are
  copied verbatim from the descriptor, value and validity are left unset.
\<close>

definition TraceRegEntry_ctor :: "TarmacContext \<Rightarrow> RegId \<Rightarrow> TraceRegEntry" where
  "TraceRegEntry_ctor tarmCtx reg =
     \<lparr>regValid = False, regClass = classValue reg, regRel = regIndex reg,
      regName = [], regValue = None\<rparr>"

text \<open>
  Modelled from the spec: the bodies of \<^verbatim>\<open>updateMisc\<close>, \<^verbatim>\<open>updateCC\<close>,
  \<^verbatim>\<open>updateFloat\<close> and \<^verbatim>\<open>updateInt\<close> are not in the header. Section 4.2: each reads
  the register from the execution context and sets the validity flag.
\<close>

definition updateMisc :: "TarmacContext \<Rightarrow> RegIndex \<Rightarrow> TraceRegEntry \<Rightarrow> TraceRegEntry" where
  "updateMisc tarmCtx regRelIdx e =
     e\<lparr>regValid := True, regValue := Some (readMiscReg tarmCtx regRelIdx)\<rparr>"

definition updateCC :: "TarmacContext \<Rightarrow> RegIndex \<Rightarrow> TraceRegEntry \<Rightarrow> TraceRegEntry" where
  "updateCC tarmCtx regRelIdx e =
     e\<lparr>regValid := True, regValue := Some (readCCReg tarmCtx regRelIdx)\<rparr>"

definition updateFloat :: "TarmacContext \<Rightarrow> RegIndex \<Rightarrow> TraceRegEntry \<Rightarrow> TraceRegEntry" where
  "updateFloat tarmCtx regRelIdx e =
     e\<lparr>regValid := True, regValue := Some (readFloatReg tarmCtx regRelIdx)\<rparr>"

definition updateInt :: "TarmacContext \<Rightarrow> RegIndex \<Rightarrow> TraceRegEntry \<Rightarrow> TraceRegEntry" where
  "updateInt tarmCtx regRelIdx e =
     e\<lparr>regValid := True, regValue := Some (readIntReg tarmCtx regRelIdx)\<rparr>"

text \<open>
  \<^verbatim>\<open>updateVec\<close> and \<^verbatim>\<open>updatePred\<close> have their bodies in the header, and the bodies
  are empty: the entry is left as it is.
\<close>

definition updateVec :: "TarmacContext \<Rightarrow> RegIndex \<Rightarrow> TraceRegEntry \<Rightarrow> TraceRegEntry" where
  "updateVec tarmCtx regRelIdx e = e"

definition updatePred :: "TarmacContext \<Rightarrow> RegIndex \<Rightarrow> TraceRegEntry \<Rightarrow> TraceRegEntry" where
  "updatePred tarmCtx regRelIdx e = e"

text \<open>
  Modelled from the spec: \<^verbatim>\<open>update\<close> is declared only. Section 4.2: it dispatches on
  the class tag of the entry to the update function of that class.
\<close>

definition update :: "TarmacContext \<Rightarrow> TraceRegEntry \<Rightarrow> TraceRegEntry" where
  "update tarmCtx e =
     (case regClass e of
        MiscRegClass \<Rightarrow> updateMisc tarmCtx (regRel e) e
      | CCRegClass \<Rightarrow> updateCC tarmCtx (regRel e) e
      | FloatRegClass \<Rightarrow> updateFloat tarmCtx (regRel e) e
      | IntRegClass \<Rightarrow> updateInt tarmCtx (regRel e) e
      | VecRegClass \<Rightarrow> updateVec tarmCtx (regRel e) e
      | VecPredRegClass \<Rightarrow> updatePred tarmCtx (regRel e) e)"

text \<open>
  \<^verbatim>\<open>genRegister\<close> (header, lines 215 to 223): construct the entry, update it, return
  it. The template parameter is instantiated with \<^verbatim>\<open>TraceRegEntry\<close>.
\<close>

definition genRegister :: "TarmacContext \<Rightarrow> RegId \<Rightarrow> TraceRegEntry" where
  "genRegister tarmCtx reg = update tarmCtx (TraceRegEntry_ctor tarmCtx reg)"

subsection \<open>Merging the condition code entries\<close>

text \<open>
  \<^verbatim>\<open>std::remove_if\<close> shifts the elements that do not satisfy the predicate to the
  front of the range, in their order, and returns the end of that front part; what is
  behind it is unspecified. \<open>remove_if\<close> is the front part, and the returned iterator is
  its length.
\<close>

fun remove_if :: "('a \<Rightarrow> bool) \<Rightarrow> 'a list \<Rightarrow> 'a list" where
  "remove_if p [] = []"
| "remove_if p (x # xs) = (if p x then remove_if p xs else x # remove_if p xs)"

text \<open>
  \<^verbatim>\<open>std::find_if\<close> returns the position of the first element that satisfies the
  predicate, or the end of the range.
\<close>

fun find_if :: "('a \<Rightarrow> bool) \<Rightarrow> 'a list \<Rightarrow> nat" where
  "find_if p [] = 0"
| "find_if p (x # xs) = (if p x then 0 else Suc (find_if p xs))"

text \<open>The two lambdas of \<^verbatim>\<open>mergeCCEntry\<close>.\<close>

definition is_cc :: "TraceRegEntry \<Rightarrow> bool" where
  "is_cc reg = (regClass reg = CCRegClass)"

definition is_cpsr :: "ArmISA \<Rightarrow> TraceRegEntry \<Rightarrow> bool" where
  "is_cpsr isa reg = (regClass reg = MiscRegClass \<and> regRel reg = MISCREG_CPSR isa)"

text \<open>
  \<^verbatim>\<open>mergeCCEntry\<close> (header, lines 225 to 259). The queue is a vector of owning
  pointers, none of them null (the lambdas dereference each); it is the list of the
  entries pointed to. The function changes the queue in place: the model returns the
  new queue. \<open>it \<noteq> length queue\<close> is \<^verbatim>\<open>it != queue.end()\<close>;
  \<^verbatim>\<open>queue.erase(it, queue.end())\<close> keeps the first \<open>it\<close> elements, which are the
  front part \<^verbatim>\<open>remove_if\<close> left; \<open>cpsr_it = length queue1\<close> is
  \<^verbatim>\<open>cpsr_it == queue.end()\<close>. When no element is removed, \<^verbatim>\<open>std::remove_if\<close>
  moves nothing and the queue is as it was.
\<close>

definition mergeCCEntry :: "ArmISA \<Rightarrow> TraceRegEntry list \<Rightarrow> TarmacContext \<Rightarrow> TraceRegEntry list" where
  "mergeCCEntry isa queue tarmCtx =
     (let front = remove_if is_cc queue;
          it = length front
      in if it \<noteq> length queue then
           (let queue1 = take it front;
                cpsr_it = find_if (is_cpsr isa) queue1
            in if cpsr_it = length queue1 then
                 queue1 @ [genRegister tarmCtx
                            \<lparr>classValue = MiscRegClass, regIndex = MISCREG_CPSR isa\<rparr>]
               else queue1)
         else queue)"

subsection \<open>Instruction and memory entries\<close>

text \<open>
  \<^verbatim>\<open>struct TraceInstEntry\<close>: the header declares \<^verbatim>\<open>secureMode\<close> and
  \<^verbatim>\<open>instSize\<close> (a \<^verbatim>\<open>uint8_t\<close>); the other fields are the attributes of section 3 of the
  specification and what the instruction line of section 6 prints.
\<close>

record TraceInstEntry =
  instNum :: "64 word"
  instPc :: "64 word"
  instOpMode :: string
  secureMode :: bool
  instSize :: "8 word"
  instISetState :: string

text \<open>
  \<^verbatim>\<open>struct TraceMemEntry\<close>: \<^verbatim>\<open>loadAccess\<close> is declared in the header; size, address
  and data are the arguments of its constructor
  (\<^verbatim>\<open>uint8_t _size, Addr _addr, uint64_t _data\<close>).
\<close>

record TraceMemEntry =
  loadAccess :: bool
  memSize :: "8 word"
  memAddr :: "64 word"
  memData :: "64 word"

text \<open>
  The state shared by all records of a run: the static counter
  \<^verbatim>\<open>uint64_t TraceInstEntry::instCount\<close> of the header, and the output sink, a list of
  lines.
\<close>

datatype Line =
    InstLine string "64 word" "64 word" string bool string
  | MemLine string bool "64 word" "8 word" "64 word"
  | RegLine string string "64 word option" bool

record TracerState =
  instCount :: "64 word"
  sink :: "Line list"

text \<open>
  Modelled from the spec: the constructor \<^verbatim>\<open>TraceInstEntry(tarmCtx, predicate)\<close> and
  \<^verbatim>\<open>addInstEntry\<close> are declared only. Section 4.1: one instruction entry is produced,
  the global instruction counter is incremented as a side effect, and the size is 16 for
  the compact instruction-set mode and 32 otherwise. The counter is the 64-bit unsigned
  integer of the header, so the increment wraps around. The entry carries the counter's
  value after the increment.
\<close>

definition TraceInstEntry_ctor :: "TarmacContext \<Rightarrow> TracerState \<Rightarrow> TraceInstEntry \<times> TracerState" where
  "TraceInstEntry_ctor tarmCtx s =
     (let n = instCount s + 1
      in (\<lparr>instNum = n, instPc = ctxPc tarmCtx, instOpMode = ctxOpMode tarmCtx,
           secureMode = ctxSecure tarmCtx,
           instSize = (if ctxCompact tarmCtx then 16 else 32),
           instISetState = ctxISetState tarmCtx\<rparr>,
          s\<lparr>instCount := n\<rparr>))"

definition addInstEntry ::
  "TraceInstEntry list \<Rightarrow> TarmacContext \<Rightarrow> TracerState \<Rightarrow> TraceInstEntry list \<times> TracerState" where
  "addInstEntry queue tarmCtx s =
     (case TraceInstEntry_ctor tarmCtx s of (e, s') \<Rightarrow> (queue @ [e], s'))"

text \<open>
  Modelled from the spec: \<^verbatim>\<open>addMemEntry\<close> and \<^verbatim>\<open>addRegEntry\<close> are declared only.
  Section 4.1: one memory entry per access, with the direction flag set from the access;
  one unresolved register entry per destination register, in declaration order.
\<close>

definition TraceMemEntry_ctor :: "bool \<times> 64 word \<times> 8 word \<times> 64 word \<Rightarrow> TraceMemEntry" where
  "TraceMemEntry_ctor acc =
     (case acc of (ld, addr, sz, data) \<Rightarrow>
        \<lparr>loadAccess = ld, memSize = sz, memAddr = addr, memData = data\<rparr>)"

definition addMemEntry :: "TraceMemEntry list \<Rightarrow> TarmacContext \<Rightarrow> TraceMemEntry list" where
  "addMemEntry queue tarmCtx = queue @ map TraceMemEntry_ctor (ctxMemAccesses tarmCtx)"

definition addRegEntry :: "TraceRegEntry list \<Rightarrow> TarmacContext \<Rightarrow> TraceRegEntry list" where
  "addRegEntry queue tarmCtx = queue @ map (TraceRegEntry_ctor tarmCtx) (ctxDestRegs tarmCtx)"

subsection \<open>Printing and flushing\<close>

text \<open>
  Modelled from the spec: the three \<^verbatim>\<open>print\<close> functions are declared only, with a
  verbosity (default 0) and a prefix (default empty). Section 6 gives the fields of each
  line; the register line carries a validity marker. The specification does not say
  what the verbosity changes, so the lines do not depend on it.
\<close>

datatype Printable = InstE TraceInstEntry | MemE TraceMemEntry | RegE TraceRegEntry

fun print :: "Printable \<Rightarrow> int \<Rightarrow> string \<Rightarrow> Line" where
  "print (InstE e) verbosity prefix =
     InstLine prefix (instNum e) (instPc e) (instOpMode e) (secureMode e) (instISetState e)"
| "print (MemE e) verbosity prefix =
     MemLine prefix (loadAccess e) (memAddr e) (memSize e) (memData e)"
| "print (RegE e) verbosity prefix =
     RegLine prefix (regName e) (regValue e) (regValid e)"

text \<open>
  Modelled from the spec: \<^verbatim>\<open>flushQueues\<close> is declared only, once for one queue and
  once for a queue followed by further queues. Section 4.4: each queue is drained to the
  sink, one entry per line through the entry's \<^verbatim>\<open>print\<close>, the queues in the order of
  the arguments.
\<close>

fun flushQueue :: "Printable list \<Rightarrow> Line list \<Rightarrow> Line list" where
  "flushQueue [] outs = outs"
| "flushQueue (single_entry # queue) outs = flushQueue queue (outs @ [print single_entry 0 []])"

fun flushQueues :: "Printable list list \<Rightarrow> Line list \<Rightarrow> Line list" where
  "flushQueues [] outs = outs"
| "flushQueues (queue # args) outs = flushQueues args (flushQueue queue outs)"

subsection \<open>The record\<close>

text \<open>
  Modelled from the spec: the constructor of \<^verbatim>\<open>TarmacTracerRecord\<close> and
  \<^verbatim>\<open>dump\<close> are declared only. Section 4.5: a record goes through the states Created,
  Built, Resolved, Merged, Flushed, Destroyed; creating it from the instruction context
  fills the three queues (section 2, control flow); \<^verbatim>\<open>dump\<close> takes a built record,
  resolves each register entry, merges the condition codes, flushes the instruction,
  memory and register queues in this order and leaves the queues empty; \<^verbatim>\<open>dump\<close> in
  any other state is a fatal usage error.
\<close>

datatype RecordState = Created | Built | Resolved | Merged | Flushed | Destroyed

datatype error = FatalUsage

record TarmacTracerRecord =
  recState :: RecordState
  recCtx :: TarmacContext
  instQueue :: "TraceInstEntry list"
  memQueue :: "TraceMemEntry list"
  regQueue :: "TraceRegEntry list"

definition create :: "TarmacContext \<Rightarrow> TracerState \<Rightarrow> TarmacTracerRecord \<times> TracerState" where
  "create tarmCtx s =
     (case addInstEntry [] tarmCtx s of (iq, s') \<Rightarrow>
        (\<lparr>recState = Built, recCtx = tarmCtx, instQueue = iq,
          memQueue = addMemEntry [] tarmCtx, regQueue = addRegEntry [] tarmCtx\<rparr>, s'))"

definition dump ::
  "ArmISA \<Rightarrow> TarmacTracerRecord \<Rightarrow> TracerState \<Rightarrow> error + TarmacTracerRecord \<times> TracerState" where
  "dump isa r s =
     (if recState r \<noteq> Built then Inl FatalUsage
      else
        (let resolved = map (update (recCtx r)) (regQueue r);
             merged = mergeCCEntry isa resolved (recCtx r);
             outs = flushQueues
                      [map InstE (instQueue r), map MemE (memQueue r), map RegE merged]
                      (sink s)
         in Inr (r\<lparr>recState := Flushed, instQueue := [], memQueue := [], regQueue := []\<rparr>,
                 s\<lparr>sink := outs\<rparr>)))"

subsection \<open>A run of records\<close>

text \<open>
  Modelled from the spec: the simulator that drives the records is outside the sources.
  Sections 1 and 5: records are handled one at a time, each created from its instruction
  context and dumped before the next is created; the counter and the sink are the only
  state that passes from one record to the next. \<open>run\<close> does this for the instruction
  contexts of a run, in order, and stops at the first fatal error.
\<close>

fun run :: "ArmISA \<Rightarrow> TarmacContext list \<Rightarrow> TracerState \<Rightarrow> error + TracerState" where
  "run isa [] s = Inr s"
| "run isa (tarmCtx # rest) s =
     (case create tarmCtx s of (r, s1) \<Rightarrow>
        (case dump isa r s1 of
           Inl e \<Rightarrow> Inl e
         | Inr (r', s2) \<Rightarrow> run isa rest s2))"

text \<open>
  The sequence numbers of the instruction lines of a sink, in the order they were
  emitted.
\<close>

fun instSeqNums :: "Line list \<Rightarrow> 64 word list" where
  "instSeqNums [] = []"
| "instSeqNums (InstLine prefix n pc mode sec iset # ls) = n # instSeqNums ls"
| "instSeqNums (MemLine prefix ld addr sz data # ls) = instSeqNums ls"
| "instSeqNums (RegLine prefix name v valid # ls) = instSeqNums ls"

subsection \<open>Concrete inputs\<close>

text \<open>
  The status register has index 0 in \<open>isa0\<close>. \<open>ctx0\<close> is an instruction that writes
  R0 and a flag group; \<open>ctxLoad\<close> is a compact-mode load of four bytes at 0x1000 that
  writes R2, a vector register and a flag group. \<open>st0\<close> is a run after 41 instructions;
  \<open>rec1\<close> is the record created next, \<open>st1\<close> the state after its creation,
  \<open>rec1'\<close> and \<open>st2\<close> the record and the state after its dump.
\<close>

definition isa0 :: ArmISA where
  "isa0 = \<lparr>MISCREG_CPSR = 0\<rparr>"

definition ctx0 :: TarmacContext where
  "ctx0 = \<lparr>ctxPc = 0x8000, ctxSecure = False, ctxCompact = False,
           ctxISetState = ''A'', ctxOpMode = ''svc'',
           readMiscReg = (\<lambda>i. 0x600001D3), readCCReg = (\<lambda>i. 1),
           readFloatReg = (\<lambda>i. 0), readIntReg = (\<lambda>i. 5),
           ctxDestRegs = [\<lparr>classValue = IntRegClass, regIndex = 0\<rparr>,
                          \<lparr>classValue = CCRegClass, regIndex = 0\<rparr>],
           ctxMemAccesses = []\<rparr>"

definition entR :: "RegIndex \<Rightarrow> TraceRegEntry" where
  "entR i = genRegister ctx0 \<lparr>classValue = IntRegClass, regIndex = i\<rparr>"

definition entCC :: "RegIndex \<Rightarrow> TraceRegEntry" where
  "entCC i = genRegister ctx0 \<lparr>classValue = CCRegClass, regIndex = i\<rparr>"

definition entCPSR :: TraceRegEntry where
  "entCPSR = genRegister ctx0 \<lparr>classValue = MiscRegClass, regIndex = 0\<rparr>"

definition ctxLoad :: TarmacContext where
  "ctxLoad = \<lparr>ctxPc = 0x8004, ctxSecure = True, ctxCompact = True,
           ctxISetState = ''T'', ctxOpMode = ''usr'',
           readMiscReg = (\<lambda>i. 0x600001D0), readCCReg = (\<lambda>i. 2),
           readFloatReg = (\<lambda>i. 0), readIntReg = (\<lambda>i. 0x2A),
           ctxDestRegs = [\<lparr>classValue = IntRegClass, regIndex = 2\<rparr>,
                          \<lparr>classValue = VecRegClass, regIndex = 1\<rparr>,
                          \<lparr>classValue = CCRegClass, regIndex = 0\<rparr>],
           ctxMemAccesses = [(True, 0x1000, 4, 0xDEADBEEF)]\<rparr>"

definition st0 :: TracerState where
  "st0 = \<lparr>instCount = 41, sink = []\<rparr>"

definition entV :: TraceRegEntry where
  "entV = TraceRegEntry_ctor ctx0 \<lparr>classValue = VecRegClass, regIndex = 3\<rparr>"

definition rec1 :: TarmacTracerRecord where
  "rec1 = fst (create ctx0 st0)"

definition st1 :: TracerState where
  "st1 = snd (create ctx0 st0)"

definition rec1' :: TarmacTracerRecord where
  "rec1' = rec1\<lparr>recState := Flushed, instQueue := [], memQueue := [], regQueue := []\<rparr>"

definition st2 :: TracerState where
  "st2 = (case dump isa0 rec1 st1 of Inr (r, s) \<Rightarrow> s | Inl e \<Rightarrow> st1)"

section \<open>Properties\<close>

lemma remove_if_filter: "remove_if p xs = filter (\<lambda>x. \<not> p x) xs"
  by (induction xs) simp_all

lemma find_if_end: "(find_if p xs = length xs) = (\<forall>x \<in> set xs. \<not> p x)"
proof (induction xs)
  case Nil
  show ?case by simp
next
  case (Cons x xs)
  show ?case using Cons.IH by simp
qed

lemma length_filter_all: "(length (filter P xs) = length xs) = (\<forall>x \<in> set xs. P x)"
proof (induction xs)
  case Nil
  show ?case by simp
next
  case (Cons x xs)
  have le: "length (filter P xs) \<le> length xs" by (rule length_filter_le)
  show ?case
  proof (cases "P x")
    case True
    then show ?thesis using Cons.IH by simp
  next
    case False
    have "length (filter P (x # xs)) < length (x # xs)"
      using False le by (simp add: less_Suc_eq_le)
    then show ?thesis using False by auto
  qed
qed

lemma is_cpsr_not_cc: "is_cpsr isa e \<Longrightarrow> \<not> is_cc e"
  by (simp add: is_cpsr_def is_cc_def)

lemma genRegister_class: "regClass (genRegister tarmCtx reg) = classValue reg"
  by (cases "classValue reg")
     (simp_all add: genRegister_def update_def TraceRegEntry_ctor_def updateMisc_def
        updateCC_def updateFloat_def updateInt_def updateVec_def updatePred_def)

lemma genRegister_rel: "regRel (genRegister tarmCtx reg) = regIndex reg"
  by (cases "classValue reg")
     (simp_all add: genRegister_def update_def TraceRegEntry_ctor_def updateMisc_def
        updateCC_def updateFloat_def updateInt_def updateVec_def updatePred_def)

lemma gen_cpsr_is_cpsr:
  "is_cpsr isa (genRegister tarmCtx \<lparr>classValue = MiscRegClass, regIndex = MISCREG_CPSR isa\<rparr>)"
  by (simp add: is_cpsr_def genRegister_class genRegister_rel)

lemma merge_no_cc:
  assumes "\<forall>e \<in> set queue. \<not> is_cc e"
  shows "mergeCCEntry isa queue tarmCtx = queue"
proof -
  have "length (remove_if is_cc queue) = length queue"
    using assms by (simp add: remove_if_filter length_filter_all)
  then show ?thesis by (simp add: mergeCCEntry_def)
qed

lemma merge_cc:
  assumes "\<exists>e \<in> set queue. is_cc e"
  shows "mergeCCEntry isa queue tarmCtx =
           filter (\<lambda>e. \<not> is_cc e) queue @
           (if \<exists>e \<in> set queue. is_cpsr isa e then []
            else [genRegister tarmCtx \<lparr>classValue = MiscRegClass, regIndex = MISCREG_CPSR isa\<rparr>])"
proof -
  let ?front = "filter (\<lambda>e. \<not> is_cc e) queue"
  have ne: "length ?front \<noteq> length queue"
    using assms by (simp add: length_filter_all)
  have found: "(find_if (is_cpsr isa) ?front = length ?front) = (\<not> (\<exists>e \<in> set queue. is_cpsr isa e))"
    using is_cpsr_not_cc by (auto simp add: find_if_end)
  show ?thesis
    using ne found by (simp add: mergeCCEntry_def remove_if_filter Let_def)
qed

lemma merge_not_cc: "e \<in> set (mergeCCEntry isa queue tarmCtx) \<Longrightarrow> \<not> is_cc e"
proof (cases "\<exists>x \<in> set queue. is_cc x")
  case True
  assume "e \<in> set (mergeCCEntry isa queue tarmCtx)"
  then show ?thesis
    using gen_cpsr_is_cpsr [of isa tarmCtx] is_cpsr_not_cc [of isa]
    by (auto simp add: merge_cc [OF True] split: if_splits)
next
  case False
  assume "e \<in> set (mergeCCEntry isa queue tarmCtx)"
  then show ?thesis using False by (simp add: merge_no_cc)
qed

lemma merge_count_cpsr:
  "length (filter (is_cpsr isa) (mergeCCEntry isa queue tarmCtx)) =
     (if (\<exists>e \<in> set queue. is_cc e) \<and> \<not> (\<exists>e \<in> set queue. is_cpsr isa e) then 1
      else length (filter (is_cpsr isa) queue))"
proof (cases "\<exists>x \<in> set queue. is_cc x")
  case True
  have keep: "filter (is_cpsr isa) (filter (\<lambda>e. \<not> is_cc e) queue) = filter (is_cpsr isa) queue"
    using is_cpsr_not_cc [of isa] by (auto simp add: filter_filter intro: filter_cong)
  have none: "\<not> (\<exists>e \<in> set queue. is_cpsr isa e) \<Longrightarrow> filter (is_cpsr isa) queue = []"
    by (simp add: filter_empty_conv)
  show ?thesis
    using True keep none gen_cpsr_is_cpsr [of isa tarmCtx]
    by (simp add: merge_cc [OF True])
next
  case False
  then show ?thesis by (simp add: merge_no_cc)
qed

lemmas ex_defs = isa0_def ctx0_def entR_def entCC_def entCPSR_def genRegister_def update_def
  TraceRegEntry_ctor_def updateMisc_def updateCC_def updateInt_def is_cc_def is_cpsr_def

subsection \<open>Claims about \<^verbatim>\<open>mergeCCEntry\<close>\<close>

text \<open>
  C1, as the code has it. After \<^verbatim>\<open>mergeCCEntry\<close> the queue holds no entry of class
  CondCode; it holds at most one Misc entry for the status register provided the queue
  held at most one before (merging never adds a status entry to a queue that has one, and
  never removes one); and a status entry is present whenever the queue held a CondCode
  entry before.
\<close>

theorem mergeCCEntry_canonical:
  "(\<forall>e \<in> set (mergeCCEntry isa queue tarmCtx). regClass e \<noteq> CCRegClass) \<and>
   (length (filter (is_cpsr isa) queue) \<le> 1 \<longrightarrow>
      length (filter (is_cpsr isa) (mergeCCEntry isa queue tarmCtx)) \<le> 1) \<and>
   ((\<exists>e \<in> set queue. regClass e = CCRegClass) \<longrightarrow>
      (\<exists>e \<in> set (mergeCCEntry isa queue tarmCtx). is_cpsr isa e))"
proof (intro conjI impI)
  show "\<forall>e \<in> set (mergeCCEntry isa queue tarmCtx). regClass e \<noteq> CCRegClass"
    using merge_not_cc [of _ isa queue tarmCtx] by (auto simp add: is_cc_def)
next
  assume "length (filter (is_cpsr isa) queue) \<le> 1"
  then show "length (filter (is_cpsr isa) (mergeCCEntry isa queue tarmCtx)) \<le> 1"
    by (simp add: merge_count_cpsr)
next
  assume "\<exists>e \<in> set queue. regClass e = CCRegClass"
  then have cc: "\<exists>e \<in> set queue. is_cc e" by (simp add: is_cc_def)
  have "length (filter (is_cpsr isa) (mergeCCEntry isa queue tarmCtx)) \<noteq> 0"
  proof (cases "\<exists>e \<in> set queue. is_cpsr isa e")
    case True
    then have "filter (is_cpsr isa) queue \<noteq> []" by (simp add: filter_empty_conv)
    then show ?thesis using True by (simp add: merge_count_cpsr)
  next
    case False
    then show ?thesis using cc by (simp add: merge_count_cpsr)
  qed
  then have "filter (is_cpsr isa) (mergeCCEntry isa queue tarmCtx) \<noteq> []" by simp
  then show "\<exists>e \<in> set (mergeCCEntry isa queue tarmCtx). is_cpsr isa e"
    by (simp add: filter_empty_conv)
qed

theorem mergeCCEntry_canonical_witness:
  "length (filter (is_cpsr isa0) [entR 0, entCC 0]) \<le> 1 \<and>
   (\<exists>e \<in> set [entR 0, entCC 0]. regClass e = CCRegClass) \<and>
   filter is_cc (mergeCCEntry isa0 [entR 0, entCC 0] ctx0) = [] \<and>
   length (filter (is_cpsr isa0) (mergeCCEntry isa0 [entR 0, entCC 0] ctx0)) \<le> 1 \<and>
   (\<exists>e \<in> set (mergeCCEntry isa0 [entR 0, entCC 0] ctx0). is_cpsr isa0 e)"
proof -
  have one: "length (filter (is_cpsr isa0) [entR 0, entCC 0]) \<le> 1"
    by (simp add: ex_defs)
  have cc: "\<exists>e \<in> set [entR 0, entCC 0]. regClass e = CCRegClass"
    by (simp add: ex_defs)
  note t = mergeCCEntry_canonical [of isa0 "[entR 0, entCC 0]" ctx0]
  have nocc: "filter is_cc (mergeCCEntry isa0 [entR 0, entCC 0] ctx0) = []"
    using t by (simp add: filter_empty_conv is_cc_def)
  show ?thesis using one cc nocc t by blast
qed

text \<open>
  C1 as it is worded, for every queue, fails: a queue that already holds two status
  register entries keeps both, the function has no step that removes a Misc entry.
\<close>

theorem mergeCCEntry_two_cpsr_counterexample:
  "mergeCCEntry isa0 [entCPSR, entCC 0, entCPSR] ctx0 = [entCPSR, entCPSR] \<and>
   is_cpsr isa0 entCPSR \<and>
   \<not> length (filter (is_cpsr isa0) (mergeCCEntry isa0 [entCPSR, entCC 0, entCPSR] ctx0)) \<le> 1"
  by (simp add: mergeCCEntry_def ex_defs)

text \<open>
  C2. \<^verbatim>\<open>mergeCCEntry\<close> keeps every entry that is not of class CondCode, in the
  order of the queue, and a synthesized status register entry is the last element, after
  every retained entry. An entry is synthesized exactly when the queue held a CondCode
  entry and no status register entry.
\<close>

theorem mergeCCEntry_order:
  "mergeCCEntry isa queue tarmCtx =
     filter (\<lambda>e. regClass e \<noteq> CCRegClass) queue @
     (if (\<exists>e \<in> set queue. regClass e = CCRegClass) \<and> \<not> (\<exists>e \<in> set queue. is_cpsr isa e)
      then [genRegister tarmCtx \<lparr>classValue = MiscRegClass, regIndex = MISCREG_CPSR isa\<rparr>]
      else [])"
proof (cases "\<exists>e \<in> set queue. is_cc e")
  case True
  show ?thesis using True by (simp add: merge_cc [OF True]) (simp add: is_cc_def)
next
  case False
  then have "filter (\<lambda>e. regClass e \<noteq> CCRegClass) queue = queue"
    by (simp add: is_cc_def filter_id_conv)
  then show ?thesis using False by (simp add: merge_no_cc) (simp add: is_cc_def)
qed

theorem mergeCCEntry_order_witness:
  "mergeCCEntry isa0 [entR 0, entCC 0, entR 1, entCC 1] ctx0 = [entR 0, entR 1, entCPSR]"
  by (subst mergeCCEntry_order) (simp add: ex_defs)

text \<open>
  C3, as the code has it. When the queue holds a CondCode entry and a Misc entry for the
  status register, the result is exactly the entries that are not of class CondCode, in
  order: nothing is synthesized, and the status register entries are those of the queue,
  as many as before (exactly one when the queue held exactly one).
\<close>

theorem mergeCCEntry_existing_cpsr:
  assumes "\<exists>e \<in> set queue. regClass e = CCRegClass"
    and "\<exists>e \<in> set queue. is_cpsr isa e"
  shows "mergeCCEntry isa queue tarmCtx = filter (\<lambda>e. regClass e \<noteq> CCRegClass) queue \<and>
         length (filter (is_cpsr isa) (mergeCCEntry isa queue tarmCtx)) =
           length (filter (is_cpsr isa) queue)"
proof
  have cc: "\<exists>e \<in> set queue. is_cc e" using assms(1) by (simp add: is_cc_def)
  show "mergeCCEntry isa queue tarmCtx = filter (\<lambda>e. regClass e \<noteq> CCRegClass) queue"
    using assms(2) by (simp add: merge_cc [OF cc]) (simp add: is_cc_def)
  show "length (filter (is_cpsr isa) (mergeCCEntry isa queue tarmCtx)) =
          length (filter (is_cpsr isa) queue)"
    using assms(2) by (simp add: merge_count_cpsr)
qed

theorem mergeCCEntry_existing_cpsr_witness:
  "(\<exists>e \<in> set [entR 1, entCPSR, entCC 0]. regClass e = CCRegClass) \<and>
   (\<exists>e \<in> set [entR 1, entCPSR, entCC 0]. is_cpsr isa0 e) \<and>
   mergeCCEntry isa0 [entR 1, entCPSR, entCC 0] ctx0 = [entR 1, entCPSR] \<and>
   length (filter (is_cpsr isa0) (mergeCCEntry isa0 [entR 1, entCPSR, entCC 0] ctx0)) = 1"
proof -
  have cc: "\<exists>e \<in> set [entR 1, entCPSR, entCC 0]. regClass e = CCRegClass"
    by (simp add: ex_defs)
  have st: "\<exists>e \<in> set [entR 1, entCPSR, entCC 0]. is_cpsr isa0 e"
    by (simp add: ex_defs)
  show ?thesis
    using cc st mergeCCEntry_existing_cpsr [OF cc st, of ctx0] by (simp add: ex_defs)
qed

text \<open>
  C3 as it is worded promises exactly one status register entry for every such queue;
  a queue with two of them keeps both.
\<close>

theorem mergeCCEntry_existing_cpsr_counterexample:
  "regClass (entCC 0) = CCRegClass \<and> is_cpsr isa0 entCPSR \<and>
   mergeCCEntry isa0 [entCC 0, entCPSR, entR 1, entCPSR] ctx0 = [entCPSR, entR 1, entCPSR] \<and>
   length (filter (is_cpsr isa0) (mergeCCEntry isa0 [entCC 0, entCPSR, entR 1, entCPSR] ctx0)) = 2"
  by (simp add: mergeCCEntry_def ex_defs)

text \<open>
  C4. A queue without an entry of class CondCode is returned as it is: same entries,
  same order, nothing removed, nothing synthesized.
\<close>

theorem mergeCCEntry_no_cc_unchanged:
  "\<forall>e \<in> set queue. regClass e \<noteq> CCRegClass \<Longrightarrow> mergeCCEntry isa queue tarmCtx = queue"
  by (rule merge_no_cc) (simp add: is_cc_def)

theorem mergeCCEntry_no_cc_unchanged_witness:
  "regClass (entR 2) \<noteq> CCRegClass \<and> regClass entCPSR \<noteq> CCRegClass \<and>
   mergeCCEntry isa0 [entR 2, entCPSR, entR 3] ctx0 = [entR 2, entCPSR, entR 3]"
proof -
  have h: "\<forall>e \<in> set [entR 2, entCPSR, entR 3]. regClass e \<noteq> CCRegClass"
    by (simp add: ex_defs)
  show ?thesis
    using h mergeCCEntry_no_cc_unchanged [OF h, of isa0 ctx0] by simp
qed

text \<open>
  C10. \<^verbatim>\<open>mergeCCEntry\<close> is idempotent: a second application, in the same or in any
  other execution context, returns the queue of the first. The first application leaves
  no CondCode entry, and the entry it may add is of class Misc.
\<close>

theorem mergeCCEntry_idempotent:
  "mergeCCEntry isa (mergeCCEntry isa queue tarmCtx) tarmCtx' = mergeCCEntry isa queue tarmCtx"
  by (rule merge_no_cc) (simp add: merge_not_cc)

theorem mergeCCEntry_idempotent_witness:
  "mergeCCEntry isa0 (mergeCCEntry isa0 [entCC 0, entR 0] ctx0) ctx0 = [entR 0, entCPSR]"
  by (subst mergeCCEntry_idempotent) (simp add: mergeCCEntry_def ex_defs)

subsection \<open>Claims about the parts of the record modelled from the specification\<close>

lemma flushQueue_lines: "flushQueue queue outs = outs @ map (\<lambda>e. print e 0 []) queue"
  by (induction queue arbitrary: outs) simp_all

lemma flushQueues_lines:
  "flushQueues qs outs = outs @ concat (map (map (\<lambda>e. print e 0 [])) qs)"
  by (induction qs arbitrary: outs) (simp_all add: flushQueue_lines)

lemma dump_built:
  "recState r = Built \<Longrightarrow>
   dump isa r s =
     Inr (r\<lparr>recState := Flushed, instQueue := [], memQueue := [], regQueue := []\<rparr>,
          s\<lparr>sink := sink s @ map (\<lambda>e. print (InstE e) 0 []) (instQueue r)
                   @ map (\<lambda>e. print (MemE e) 0 []) (memQueue r)
                   @ map (\<lambda>e. print (RegE e) 0 [])
                       (mergeCCEntry isa (map (update (recCtx r)) (regQueue r)) (recCtx r))\<rparr>)"
  by (simp add: dump_def Let_def flushQueues_lines comp_def)

lemma dump_Inr_built: "dump isa r s = Inr p \<Longrightarrow> recState r = Built"
  by (simp add: dump_def split: if_splits)

lemmas model_defs = create_def addInstEntry_def TraceInstEntry_ctor_def addMemEntry_def
  TraceMemEntry_ctor_def addRegEntry_def updateVec_def updatePred_def updateFloat_def

lemma create_built: "recState (fst (create tarmCtx s)) = Built"
  by (simp add: model_defs Let_def)

lemma merge_entries:
  "e \<in> set (mergeCCEntry isa queue tarmCtx) \<Longrightarrow>
   e \<in> set queue \<or>
   e = genRegister tarmCtx \<lparr>classValue = MiscRegClass, regIndex = MISCREG_CPSR isa\<rparr>"
proof (cases "\<exists>x \<in> set queue. is_cc x")
  case True
  assume "e \<in> set (mergeCCEntry isa queue tarmCtx)"
  then show ?thesis by (auto simp add: merge_cc [OF True] split: if_splits)
next
  case False
  assume "e \<in> set (mergeCCEntry isa queue tarmCtx)"
  then show ?thesis using False by (simp add: merge_no_cc)
qed

lemma addInstEntry_eq:
  "addInstEntry queue tarmCtx s =
     (queue @ [fst (TraceInstEntry_ctor tarmCtx s)], s\<lparr>instCount := instCount s + 1\<rparr>)"
  by (simp add: addInstEntry_def TraceInstEntry_ctor_def Let_def)

lemma ctor_instNum: "instNum (fst (TraceInstEntry_ctor tarmCtx s)) = instCount s + 1"
  by (simp add: TraceInstEntry_ctor_def Let_def)

lemma create_inst:
  "create tarmCtx s = (r, s') \<Longrightarrow>
   instQueue r = [fst (TraceInstEntry_ctor tarmCtx s)] \<and> instCount s' = instCount s + 1"
  by (auto simp add: create_def addInstEntry_eq)

lemma rec1_built: "recState rec1 = Built"
  by (simp add: rec1_def create_built)

lemma dump_rec1: "dump isa0 rec1 st1 = Inr (rec1', st2)"
  by (simp add: st2_def rec1'_def dump_built [OF rec1_built])

lemma instSeqNums_append: "instSeqNums (xs @ ys) = instSeqNums xs @ instSeqNums ys"
  by (induction xs rule: instSeqNums.induct) simp_all

lemma instSeqNums_inst:
  "instSeqNums (map (\<lambda>e. InstLine p (n e) (a e) (b e) (c e) (d e)) q) = map n q"
  by (induction q) simp_all

lemma instSeqNums_mem:
  "instSeqNums (map (\<lambda>e. MemLine p (a e) (b e) (c e) (d e)) q) = []"
  by (induction q) simp_all

lemma instSeqNums_reg:
  "instSeqNums (map (\<lambda>e. RegLine p (a e) (b e) (c e)) q) = []"
  by (induction q) simp_all

lemma one_record:
  "\<exists>r' s2. dump isa (fst (create tarmCtx s)) (snd (create tarmCtx s)) = Inr (r', s2) \<and>
     instCount s2 = instCount s + 1 \<and>
     instSeqNums (sink s2) = instSeqNums (sink s) @ [instCount s + 1]"
proof -
  obtain r s1 where c: "create tarmCtx s = (r, s1)" by (cases "create tarmCtx s")
  have b: "recState r = Built" using create_built [of tarmCtx s] c by simp
  have q: "instQueue r = [fst (TraceInstEntry_ctor tarmCtx s)]"
    and n: "instCount s1 = instCount s + 1"
    using create_inst [OF c] by simp_all
  have k: "sink s1 = sink s" using c by (auto simp add: create_def addInstEntry_eq)
  show ?thesis
    by (simp add: c dump_built [OF b] instSeqNums_append instSeqNums_inst instSeqNums_mem
          instSeqNums_reg q n k ctor_instNum)
qed

lemma run_numbers:
  "\<exists>s'. run isa ctxs s = Inr s' \<and>
     instCount s' = instCount s + of_nat (length ctxs) \<and>
     instSeqNums (sink s') =
       instSeqNums (sink s) @ map (\<lambda>k. instCount s + 1 + of_nat k) [0 ..< length ctxs]"
proof (induction ctxs arbitrary: s)
  case Nil
  show ?case by simp
next
  case (Cons c cs)
  obtain r' s2 where d: "dump isa (fst (create c s)) (snd (create c s)) = Inr (r', s2)"
    and n: "instCount s2 = instCount s + 1"
    and l: "instSeqNums (sink s2) = instSeqNums (sink s) @ [instCount s + 1]"
    using one_record [of isa c s] by blast
  obtain s' where r: "run isa cs s2 = Inr s'"
    and n': "instCount s' = instCount s2 + of_nat (length cs)"
    and l': "instSeqNums (sink s') =
       instSeqNums (sink s2) @ map (\<lambda>k. instCount s2 + 1 + of_nat k) [0 ..< length cs]"
    using Cons.IH [of s2] by blast
  have run: "run isa (c # cs) s = Inr s'"
    using d r by (simp add: case_prod_beta)
  have upt: "[0 ..< length (c # cs)] = 0 # map Suc [0 ..< length cs]"
    by (simp add: upt_conv_Cons map_Suc_upt del: upt_Suc)
  have nums: "map (\<lambda>k. instCount s + 1 + of_nat k) [0 ..< length (c # cs)] =
      (instCount s + 1) # map (\<lambda>k. instCount s2 + 1 + of_nat k) [0 ..< length cs]"
    by (simp only: upt list.map map_map comp_def) (simp add: n add.commute add.left_commute)
  show ?case
    using run n' l' by (simp only: nums) (simp add: n l add.assoc)
qed

lemma unat_add_of_nat:
  assumes "unat (c :: 64 word) + m < 2 ^ 64"
  shows "unat (c + of_nat m) = unat c + m"
proof -
  have m: "m < 2 ^ 64" using assms by simp
  have "unat (of_nat m :: 64 word) = m" using m by (simp add: unat_of_nat)
  then show ?thesis using assms by (simp add: unat_word_ariths)
qed

lemma numbers_no_wrap:
  assumes "unat (c :: 64 word) + n < 2 ^ 64"
  shows "map unat (map (\<lambda>k. c + 1 + of_nat k) [0 ..< n]) = [unat c + 1 ..< unat c + 1 + n]"
proof -
  have "\<And>k. k < n \<Longrightarrow> unat (c + 1 + of_nat k) = unat c + 1 + k"
  proof -
    fix k assume k: "k < n"
    have "c + 1 + of_nat k = c + of_nat (Suc k)" by simp
    moreover have "unat (c + of_nat (Suc k)) = unat c + Suc k"
      using assms k by (intro unat_add_of_nat) simp
    ultimately show "unat (c + 1 + of_nat k) = unat c + 1 + k" by (simp add: add.assoc)
  qed
  then have "map unat (map (\<lambda>k. c + 1 + of_nat k) [0 ..< n]) = map (\<lambda>k. unat c + 1 + k) [0 ..< n]"
    by simp
  also have "\<dots> = map (\<lambda>i. i + (unat c + 1)) [0 ..< n]"
    by (simp only: add.commute)
  also have "\<dots> = [unat c + 1 ..< n + (unat c + 1)]"
    by (rule map_add_upt)
  also have "\<dots> = [unat c + 1 ..< unat c + 1 + n]"
    by (simp only: add.commute)
  finally show ?thesis .
qed

lemma sorted_words:
  assumes "map unat (ws :: 64 word list) = [a ..< b]"
  shows "sorted_wrt (<) ws"
proof -
  have rel: "(<) = (\<lambda>x y :: 64 word. unat x < unat y)"
    by (intro ext) (simp add: word_less_nat_alt)
  have "sorted_wrt (<) (map unat ws)" by (simp add: assms)
  then show ?thesis by (simp add: sorted_wrt_map rel)
qed

text \<open>
  C5. \<^verbatim>\<open>dump\<close> on a built record returns, and what it appends to the sink is one line
  per entry, each the \<^verbatim>\<open>print\<close> of its entry with the default verbosity and prefix:
  the instruction entries first, then the memory entries, then the register entries as
  they are after resolution and merging.
\<close>

theorem dump_order:
  assumes "recState r = Built"
  shows "\<exists>r' s'. dump isa r s = Inr (r', s') \<and>
           sink s' = sink s @ map (\<lambda>e. print (InstE e) 0 []) (instQueue r)
                     @ map (\<lambda>e. print (MemE e) 0 []) (memQueue r)
                     @ map (\<lambda>e. print (RegE e) 0 [])
                         (mergeCCEntry isa (map (update (recCtx r)) (regQueue r)) (recCtx r))"
  using dump_built [OF assms, of isa s] by simp

theorem dump_order_witness:
  "recState (fst (create ctxLoad st0)) = Built \<and>
   (\<exists>r' s'. dump isa0 (fst (create ctxLoad st0)) (snd (create ctxLoad st0)) = Inr (r', s') \<and>
      sink s' =
        [InstLine [] 42 0x8004 ''usr'' True ''T'',
         MemLine [] True 0x1000 4 0xDEADBEEF,
         RegLine [] [] (Some 0x2A) True,
         RegLine [] [] None False,
         RegLine [] [] (Some 0x600001D0) True])"
proof -
  have b: "recState (fst (create ctxLoad st0)) = Built" by (rule create_built)
  show ?thesis
    using b dump_order [OF b, of isa0 "snd (create ctxLoad st0)"]
    by (simp add: model_defs ctxLoad_def st0_def mergeCCEntry_def ex_defs Let_def)
qed

text \<open>
  C6. The validity flag of a register entry is false when it is constructed. Merging
  does not touch it: every entry of the merged queue is an entry of the queue as it was,
  or the synthesized one, which is the result of \<^verbatim>\<open>update\<close>. At flush time the register
  line carries the flag of its entry as the validity marker, so an entry whose flag is
  still false is printed as invalid.
\<close>

theorem regValid_only_by_update:
  "\<not> regValid (TraceRegEntry_ctor tarmCtx reg) \<and>
   (\<forall>e \<in> set (mergeCCEntry isa queue tarmCtx).
      e \<in> set queue \<or>
      e = update tarmCtx (TraceRegEntry_ctor tarmCtx
            \<lparr>classValue = MiscRegClass, regIndex = MISCREG_CPSR isa\<rparr>)) \<and>
   flushQueue (map RegE queue) outs =
     outs @ map (\<lambda>e. RegLine [] (regName e) (regValue e) (regValid e)) queue \<and>
   (\<not> regValid x \<longrightarrow> print (RegE x) verbosity prefix = RegLine prefix (regName x) (regValue x) False)"
proof (intro conjI ballI impI)
  show "\<not> regValid (TraceRegEntry_ctor tarmCtx reg)"
    by (simp add: TraceRegEntry_ctor_def)
next
  fix e assume "e \<in> set (mergeCCEntry isa queue tarmCtx)"
  then show "e \<in> set queue \<or>
      e = update tarmCtx (TraceRegEntry_ctor tarmCtx
            \<lparr>classValue = MiscRegClass, regIndex = MISCREG_CPSR isa\<rparr>)"
    using merge_entries [of e isa queue tarmCtx] by (simp add: genRegister_def)
next
  show "flushQueue (map RegE queue) outs =
     outs @ map (\<lambda>e. RegLine [] (regName e) (regValue e) (regValid e)) queue"
    by (simp add: flushQueue_lines comp_def)
next
  assume "\<not> regValid x"
  then show "print (RegE x) verbosity prefix = RegLine prefix (regName x) (regValue x) False"
    by simp
qed

theorem regValid_only_by_update_witness:
  "\<not> regValid entV \<and>
   mergeCCEntry isa0 [entV, entCC 0] ctx0 = [entV, entCPSR] \<and>
   flushQueue (map RegE (mergeCCEntry isa0 [entV, entCC 0] ctx0)) [] =
     [RegLine [] [] None False, RegLine [] [] (Some 0x600001D3) True] \<and>
   print (RegE entV) 0 [] = RegLine [] [] None False"
proof -
  have inv: "\<not> regValid entV" by (simp add: entV_def TraceRegEntry_ctor_def)
  note t = regValid_only_by_update
    [of ctx0 "\<lparr>classValue = VecRegClass, regIndex = 3\<rparr>" isa0 "[entV, entCC 0]"
        "[]" entV 0 "[]"]
  have m: "mergeCCEntry isa0 [entV, entCC 0] ctx0 = [entV, entCPSR]"
    by (simp add: mergeCCEntry_def entV_def ex_defs)
  have p: "print (RegE entV) 0 [] = RegLine [] [] None False"
    using t inv by (simp add: entV_def TraceRegEntry_ctor_def)
  have f: "flushQueue (map RegE (mergeCCEntry isa0 [entV, entCC 0] ctx0)) [] =
     [RegLine [] [] None False, RegLine [] [] (Some 0x600001D3) True]"
    by (simp add: m) (simp add: entV_def ex_defs)
  show ?thesis using inv m f p by simp
qed

text \<open>
  C7. \<^verbatim>\<open>updateVec\<close> and \<^verbatim>\<open>updatePred\<close> leave the entry as it is. For an entry of
  class Vector or Predicate \<^verbatim>\<open>update\<close> is therefore the identity, and the entry
  \<^verbatim>\<open>genRegister\<close> returns for such a register is the constructed one: no value, and
  the validity flag false. \<^verbatim>\<open>update\<close> has no error result.
\<close>

theorem update_vec_pred_noop:
  "updateVec tarmCtx regRelIdx e = e \<and> updatePred tarmCtx regRelIdx e = e \<and>
   (regClass e = VecRegClass \<or> regClass e = VecPredRegClass \<longrightarrow> update tarmCtx e = e) \<and>
   (classValue reg = VecRegClass \<or> classValue reg = VecPredRegClass \<longrightarrow>
      genRegister tarmCtx reg = TraceRegEntry_ctor tarmCtx reg \<and>
      \<not> regValid (genRegister tarmCtx reg) \<and> regValue (genRegister tarmCtx reg) = None)"
  by (auto simp add: genRegister_def update_def updateVec_def updatePred_def
        TraceRegEntry_ctor_def)

theorem update_vec_pred_noop_witness:
  "regClass entV = VecRegClass \<and> update ctxLoad entV = entV \<and>
   \<not> regValid (genRegister ctxLoad \<lparr>classValue = VecPredRegClass, regIndex = 7\<rparr>) \<and>
   regValue (genRegister ctxLoad \<lparr>classValue = VecPredRegClass, regIndex = 7\<rparr>) = None"
proof -
  have c: "regClass entV = VecRegClass" by (simp add: entV_def TraceRegEntry_ctor_def)
  note t = update_vec_pred_noop
    [of ctxLoad 0 entV "\<lparr>classValue = VecPredRegClass, regIndex = 7\<rparr>"]
  show ?thesis using c t by (simp add: TraceRegEntry_ctor_def)
qed

text \<open>
  C8. \<^verbatim>\<open>addInstEntry\<close> appends exactly one entry, numbered with the counter, and
  adds one to the counter. In a run every record is created and dumped in turn, and the
  sequence numbers of the instruction lines the run emits are the counter's values after
  each increment: one line per record, each number the one before it plus one. The
  counter is the 64-bit integer of the header, so the numbers are strictly increasing, by
  exactly one from each line to the next, for every run that does not take the counter
  past its largest value.
\<close>

theorem instruction_numbers_consecutive:
  "(\<exists>e. addInstEntry queue tarmCtx s =
          (queue @ [e], s\<lparr>instCount := instCount s + 1\<rparr>) \<and>
        instNum e = instCount s + 1) \<and>
   (\<exists>s' nums. run isa ctxs s = Inr s' \<and>
      instSeqNums (sink s') = instSeqNums (sink s) @ nums \<and>
      nums = map (\<lambda>k. instCount s + 1 + of_nat k) [0 ..< length ctxs] \<and>
      instCount s' = instCount s + of_nat (length ctxs) \<and>
      (unat (instCount s) + length ctxs < 2 ^ 64 \<longrightarrow>
         map unat nums = [unat (instCount s) + 1 ..< unat (instCount s) + 1 + length ctxs] \<and>
         sorted_wrt (<) nums))"
proof
  show "\<exists>e. addInstEntry queue tarmCtx s =
          (queue @ [e], s\<lparr>instCount := instCount s + 1\<rparr>) \<and>
        instNum e = instCount s + 1"
    by (simp add: addInstEntry_eq ctor_instNum)
next
  let ?nums = "map (\<lambda>k. instCount s + 1 + of_nat k) [0 ..< length ctxs]"
  obtain s' where r: "run isa ctxs s = Inr s'"
    and n: "instCount s' = instCount s + of_nat (length ctxs)"
    and l: "instSeqNums (sink s') = instSeqNums (sink s) @ ?nums"
    using run_numbers [of isa ctxs s] by blast
  have "unat (instCount s) + length ctxs < 2 ^ 64 \<longrightarrow>
         map unat ?nums = [unat (instCount s) + 1 ..< unat (instCount s) + 1 + length ctxs] \<and>
         sorted_wrt (<) ?nums"
  proof
    assume "unat (instCount s) + length ctxs < 2 ^ 64"
    then have u: "map unat ?nums =
        [unat (instCount s) + 1 ..< unat (instCount s) + 1 + length ctxs]"
      by (rule numbers_no_wrap)
    then show "map unat ?nums =
        [unat (instCount s) + 1 ..< unat (instCount s) + 1 + length ctxs] \<and>
        sorted_wrt (<) ?nums"
      using sorted_words [OF u] by simp
  qed
  then show "\<exists>s' nums. run isa ctxs s = Inr s' \<and>
      instSeqNums (sink s') = instSeqNums (sink s) @ nums \<and>
      nums = map (\<lambda>k. instCount s + 1 + of_nat k) [0 ..< length ctxs] \<and>
      instCount s' = instCount s + of_nat (length ctxs) \<and>
      (unat (instCount s) + length ctxs < 2 ^ 64 \<longrightarrow>
         map unat nums = [unat (instCount s) + 1 ..< unat (instCount s) + 1 + length ctxs] \<and>
         sorted_wrt (<) nums)"
    using r n l by blast
qed

theorem instruction_numbers_consecutive_witness:
  "unat (instCount st0) + length [ctx0, ctxLoad, ctx0] < 2 ^ 64 \<and>
   (\<exists>s'. run isa0 [ctx0, ctxLoad, ctx0] st0 = Inr s' \<and>
      instSeqNums (sink s') = [42, 43, 44] \<and> instCount s' = 44)"
proof -
  have h: "unat (instCount st0) + length [ctx0, ctxLoad, ctx0] < 2 ^ 64"
    by (simp add: st0_def)
  have u: "[0 ..< length [ctx0, ctxLoad, ctx0]] = [0, 1, 2]"
    by (simp add: upt_rec)
  show ?thesis
    using h instruction_numbers_consecutive [of "[]" ctx0 st0 isa0 "[ctx0, ctxLoad, ctx0]"]
    by (auto simp add: st0_def u)
qed

text \<open>
  C9. After a \<^verbatim>\<open>dump\<close> that completed, the record is in state Flushed, and a second
  \<^verbatim>\<open>dump\<close> of it, in whatever state the run is, is the fatal usage error: it returns
  no record and no sink, so it neither passes silently nor prints the record again.
\<close>

theorem dump_twice_fatal:
  assumes "dump isa r s = Inr (r', s')"
  shows "recState r' = Flushed \<and> dump isa r' s'' = Inl FatalUsage"
proof -
  have b: "recState r = Built" by (rule dump_Inr_built [OF assms])
  have "r' = r\<lparr>recState := Flushed, instQueue := [], memQueue := [], regQueue := []\<rparr>"
    using assms by (simp add: dump_built [OF b])
  then have f: "recState r' = Flushed" by simp
  then show ?thesis by (simp add: dump_def)
qed

theorem dump_twice_fatal_witness:
  "dump isa0 rec1 st1 = Inr (rec1', st2) \<and> dump isa0 rec1' st2 = Inl FatalUsage"
  using dump_rec1 dump_twice_fatal [OF dump_rec1, of st2] by simp

end
